theory Spec2Isabelle
  imports Main "HOL-Library.Sublist"
begin

section \<open>Strings and POSIX paths as the script uses them\<close>

text \<open>
  The script \<^verbatim>\<open>filter_clang_tidy.py\<close> lives under \<^verbatim>\<open>build_linux\<close>; its
  \<^verbatim>\<open>os.path\<close> is \<^verbatim>\<open>posixpath\<close> and \<^verbatim>\<open>os.path.sep\<close> is the slash.
  Python strings are modelled as \<^typ>\<open>string\<close>.
\<close>

definition sep :: char where
  "sep = CHR ''/''"

text \<open>\<^verbatim>\<open>x in s\<close> on strings: \<^verbatim>\<open>x\<close> occurs in \<^verbatim>\<open>s\<close> as a contiguous substring.\<close>

fun str_in :: "string \<Rightarrow> string \<Rightarrow> bool" where
  "str_in x [] = (x = [])"
| "str_in x (c # cs) = (prefix x (c # cs) \<or> str_in x cs)"

text \<open>\<^verbatim>\<open>d.join(xs)\<close>.\<close>

fun str_join :: "string \<Rightarrow> string list \<Rightarrow> string" where
  "str_join d [] = []"
| "str_join d [x] = x"
| "str_join d (x # y # ys) = x @ d @ str_join d (y # ys)"

text \<open>\<^verbatim>\<open>s.split(d)\<close> for a one-character separator: always at least one piece.\<close>

fun str_split :: "char \<Rightarrow> string \<Rightarrow> string list" where
  "str_split d [] = [[]]"
| "str_split d (c # cs) =
     (if c = d then [] # str_split d cs
      else (case str_split d cs of
              [] \<Rightarrow> [[c]]
            | w # ws \<Rightarrow> (c # w) # ws))"

text \<open>\<^verbatim>\<open>s.lstrip(d)\<close> and \<^verbatim>\<open>s.rstrip(d)\<close> for a one-character set.\<close>

definition lstrip :: "char \<Rightarrow> string \<Rightarrow> string" where
  "lstrip d s = dropWhile (\<lambda>c. c = d) s"

definition rstrip :: "char \<Rightarrow> string \<Rightarrow> string" where
  "rstrip d s = rev (dropWhile (\<lambda>c. c = d) (rev s))"

text \<open>
  \<^verbatim>\<open>s.replace(old, new)\<close>: the occurrences of \<^verbatim>\<open>old\<close> are found from the left and do not
  overlap. For an empty \<^verbatim>\<open>old\<close> Python puts \<^verbatim>\<open>new\<close> before every character and at the end.
\<close>

function replace_from :: "string \<Rightarrow> string \<Rightarrow> string \<Rightarrow> string" where
  "replace_from old new [] = []"
| "replace_from old new (c # cs) =
     (if old \<noteq> [] \<and> prefix old (c # cs)
      then new @ replace_from old new (drop (length old) (c # cs))
      else c # replace_from old new cs)"
  by pat_completeness auto
termination
  by (relation "measure (\<lambda>(old, new, s). length s)") (auto simp: Suc_le_eq)

definition str_replace :: "string \<Rightarrow> string \<Rightarrow> string \<Rightarrow> string" where
  "str_replace s old new =
     (if old = [] then new @ concat (map (\<lambda>c. c # new) s)
      else replace_from old new s)"

subsection \<open>\<^verbatim>\<open>posixpath\<close>\<close>

datatype error =
    SystemExit nat string  \<comment> \<open>exit status and the message printed\<close>
  | ValueError string

definition isabs :: "string \<Rightarrow> bool" where
  "isabs p = prefix [sep] p"

text \<open>\<^verbatim>\<open>os.path.join(a, b)\<close>.\<close>

definition path_join :: "string \<Rightarrow> string \<Rightarrow> string" where
  "path_join a b =
     (if prefix [sep] b then b
      else if a = [] \<or> suffix [sep] a then a @ b
      else a @ [sep] @ b)"

text \<open>
  \<^verbatim>\<open>os.path.dirname(p)\<close>: everything up to the last slash, with trailing slashes
  removed unless the head consists of slashes only. A name without a slash has the
  empty directory.
\<close>

definition dirname :: "string \<Rightarrow> string" where
  "dirname p =
     (let hd_part = rev (dropWhile (\<lambda>c. c \<noteq> sep) (rev p))
      in if hd_part \<noteq> [] \<and> hd_part \<noteq> replicate (length hd_part) sep
         then rstrip sep hd_part else hd_part)"

text \<open>The component loop of \<^verbatim>\<open>normpath\<close>; \<^verbatim>\<open>new_comps\<close> is the accumulator.\<close>

fun norm_comps :: "bool \<Rightarrow> string list \<Rightarrow> string list \<Rightarrow> string list" where
  "norm_comps initial_slashes new_comps [] = new_comps"
| "norm_comps initial_slashes new_comps (cmp # comps) =
     (if cmp = [] \<or> cmp = ''.'' then norm_comps initial_slashes new_comps comps
      else if cmp \<noteq> ''..'' \<or> (\<not> initial_slashes \<and> new_comps = [])
              \<or> (new_comps \<noteq> [] \<and> last new_comps = ''..'')
      then norm_comps initial_slashes (new_comps @ [cmp]) comps
      else if new_comps \<noteq> [] then norm_comps initial_slashes (butlast new_comps) comps
      else norm_comps initial_slashes new_comps comps)"

definition normpath :: "string \<Rightarrow> string" where
  "normpath path =
     (if path = [] then ''.''
      else
        let initial_slashes =
              (if \<not> prefix [sep] path then 0
               else if prefix [sep, sep] path \<and> \<not> prefix [sep, sep, sep] path then 2
               else (1::nat));
            comps = norm_comps (initial_slashes \<noteq> 0) [] (str_split sep path);
            res = replicate initial_slashes sep @ str_join [sep] comps
        in if res = [] then ''.'' else res)"

text \<open>\<^verbatim>\<open>os.path.abspath\<close>; the working directory is a parameter.\<close>

definition abspath :: "string \<Rightarrow> string \<Rightarrow> string" where
  "abspath cwd path = normpath (if isabs path then path else path_join cwd path)"

text \<open>\<^verbatim>\<open>len(commonprefix([xs, ys]))\<close> on two lists of components.\<close>

fun common_len :: "string list \<Rightarrow> string list \<Rightarrow> nat" where
  "common_len (x # xs) (y # ys) = (if x = y then Suc (common_len xs ys) else 0)"
| "common_len _ _ = 0"

text \<open>
  \<^verbatim>\<open>os.path.relpath(path, start)\<close>. It raises \<^verbatim>\<open>ValueError\<close> on an empty path. The
  components are not empty and hold no slash, so \<^verbatim>\<open>join(*rel_list)\<close> is the components
  joined by the separator.
\<close>

definition relpath :: "string \<Rightarrow> string \<Rightarrow> string \<Rightarrow> error + string" where
  "relpath cwd path start =
     (if path = [] then Inl (ValueError ''no path specified'')
      else
        let start_list = filter (\<lambda>x. x \<noteq> []) (str_split sep (abspath cwd start));
            path_list = filter (\<lambda>x. x \<noteq> []) (str_split sep (abspath cwd path));
            i = common_len start_list path_list;
            rel_list = replicate (length start_list - i) ''..'' @ drop i path_list
        in if rel_list = [] then Inr ''.'' else Inr (str_join [sep] rel_list))"

section \<open>The script's data\<close>

text \<open>
  A compile entry is a JSON object with the keys \<^verbatim>\<open>file\<close> and \<^verbatim>\<open>command\<close>; they are the
  fields \<open>entry_file\<close> and \<open>entry_command\<close>, and whatever else the object holds is the
  record's extension. The module's global variables are the fields
  of the state; \<^verbatim>\<open>cwd\<close> is the process's working directory, which \<^verbatim>\<open>read_args\<close> sets to
  the script's own directory.
\<close>

record entry =
  entry_file :: string
  entry_command :: string

record 'a state =
  cwd :: string
  path_config :: string
  path_build :: string
  path_root :: string
  isystem :: bool
  commands :: "'a entry_scheme list"
  excludes :: "string list"
  commands_inc :: "'a entry_scheme list"
  commands_exc :: "'a entry_scheme list"

section \<open>\<^verbatim>\<open>filter_sources\<close>\<close>

text \<open>Line 152: the directory of the entry's file relative to the root, behind a separator.\<close>

definition path_str :: "string \<Rightarrow> string \<Rightarrow> 'a entry_scheme \<Rightarrow> error + string" where
  "path_str wd root cmd =
     (case relpath wd (dirname (entry_file cmd)) root of
        Inl e \<Rightarrow> Inl e
      | Inr rel \<Rightarrow> Inr (sep # rel))"

text \<open>Lines 153 to 157: the loop over the excludes, leaving at the first match.\<close>

fun include_folder :: "string list \<Rightarrow> string \<Rightarrow> bool" where
  "include_folder [] p = True"
| "include_folder (exclude # rest) p =
     (if str_in exclude p then False else include_folder rest p)"

text \<open>
  Lines 147 to 166: the loop over the commands. An exception leaves the loop with the
  two lists as they are at that moment.
\<close>

fun filter_loop ::
  "string \<Rightarrow> string \<Rightarrow> string list \<Rightarrow> 'a entry_scheme list \<Rightarrow>
   'a entry_scheme list \<Rightarrow> 'a entry_scheme list \<Rightarrow>
   error option \<times> 'a entry_scheme list \<times> 'a entry_scheme list" where
  "filter_loop wd root exs [] inc exc = (None, inc, exc)"
| "filter_loop wd root exs (cmd # cmds) inc exc =
     (case path_str wd root cmd of
        Inl e \<Rightarrow> (Some e, inc, exc)
      | Inr p \<Rightarrow>
          if include_folder exs p
          then filter_loop wd root exs cmds (inc @ [cmd]) exc
          else filter_loop wd root exs cmds inc (exc @ [cmd]))"

definition filter_sources :: "'a state \<Rightarrow> error option \<times> 'a state" where
  "filter_sources st =
     (case filter_loop (cwd st) (path_root st) (excludes st) (commands st)
             (commands_inc st) (commands_exc st) of
        (r, inc, exc) \<Rightarrow> (r, st\<lparr>commands_inc := inc, commands_exc := exc\<rparr>))"

section \<open>\<^verbatim>\<open>read_config\<close> and \<^verbatim>\<open>read_commands\<close>\<close>

text \<open>
  The files the script reads, as parsed JSON: a configuration is an array of arrays of
  strings, a compilation database an array of entries. A path that is not in the map
  does not exist. \<^verbatim>\<open>save_commands\<close> writes databases.
\<close>

record 'a files =
  config_at :: "string \<rightharpoonup> string list list"
  database_at :: "string \<rightharpoonup> 'a entry_scheme list"

text \<open>The module sets \<^verbatim>\<open>GRACEFUL_EXIT = False\<close>; the loaders read it, here as a parameter.\<close>

definition GRACEFUL_EXIT :: bool where
  "GRACEFUL_EXIT = False"

definition newline :: char where
  "newline = CHR 0x0A"

text \<open>
  \<^verbatim>\<open>sys.exit(0)\<close> after \<^verbatim>\<open>print(msg)\<close> ends the process with status 0;
  \<^verbatim>\<open>raise SystemExit(msg)\<close> with a string prints it and ends the process with status 1.
\<close>

definition missing :: "bool \<Rightarrow> string \<Rightarrow> string \<Rightarrow> error" where
  "missing graceful what path =
     (if graceful
      then SystemExit 0 (''** ERROR - '' @ what @ '' is missing:'' @ [newline] @ path)
      else SystemExit 1 (''** FATAL - '' @ what @ '' is missing:'' @ [newline] @ path))"

definition read_config :: "bool \<Rightarrow> 'a files \<Rightarrow> 'a state \<Rightarrow> error + 'a state" where
  "read_config graceful fs st =
     (case config_at fs (path_config st) of
        None \<Rightarrow> Inl (missing graceful ''directory exclusion configuration'' (path_config st))
      | Some excludes_raw \<Rightarrow>
          Inr (st\<lparr>excludes := excludes st @
                     map (\<lambda>exclude_raw. sep # str_join [sep] exclude_raw) excludes_raw\<rparr>))"

definition read_commands :: "bool \<Rightarrow> 'a files \<Rightarrow> 'a state \<Rightarrow> error + 'a state" where
  "read_commands graceful fs st =
     (let path_database = path_join (path_build st) ''compile_commands.json''
      in case database_at fs path_database of
           None \<Rightarrow> Inl (missing graceful ''CMake-generated compilation database'' path_database)
         | Some cmds \<Rightarrow> Inr (st\<lparr>commands := cmds\<rparr>))"

section \<open>\<^verbatim>\<open>filter_headers\<close>\<close>

text \<open>Lines 181 to 187: one exclude applied to one command string.\<close>

definition header_step :: "string \<Rightarrow> string \<Rightarrow> string \<Rightarrow> string" where
  "header_step root cmd exclude =
     (let exclude_path = path_join root exclude;
          header_include = ''-I'' @ exclude_path
      in if str_in header_include cmd
         then str_replace cmd header_include (''-isystem '' @ exclude_path)
         else cmd)"

text \<open>Lines 180 to 187: the loop over the excludes, on one entry.\<close>

definition rewrite_entry :: "string \<Rightarrow> string list \<Rightarrow> 'a entry_scheme \<Rightarrow> 'a entry_scheme" where
  "rewrite_entry root exs cmd = cmd\<lparr>entry_command := foldl (header_step root) (entry_command cmd) exs\<rparr>"

text \<open>
  The entries of \<^verbatim>\<open>commands_inc\<close> are objects that \<^verbatim>\<open>commands\<close> holds too; nothing reads
  \<^verbatim>\<open>commands\<close> after \<^verbatim>\<open>filter_sources\<close>, and the model leaves that list as it is.
\<close>

definition filter_headers :: "'a state \<Rightarrow> 'a state" where
  "filter_headers st =
     (if isystem st
      then
        let exs = map (lstrip sep) (excludes st)
        in st\<lparr>excludes := exs,
               commands_inc := map (rewrite_entry (path_root st) exs) (commands_inc st)\<rparr>
      else st)"

section \<open>\<^verbatim>\<open>save_commands\<close> and \<^verbatim>\<open>main\<close>\<close>

definition save_commands :: "'a files \<Rightarrow> 'a state \<Rightarrow> 'a files" where
  "save_commands fs st =
     (let PATH_COMPILE_COMMANDS_INC = path_join (path_build st) ''compile_commands_inc.json'';
          PATH_COMPILE_COMMANDS_EXC = path_join (path_build st) ''compile_commands_exc.json'';
          fs1 = fs\<lparr>database_at := (database_at fs)(PATH_COMPILE_COMMANDS_INC \<mapsto> commands_inc st)\<rparr>
      in fs1\<lparr>database_at := (database_at fs1)(PATH_COMPILE_COMMANDS_EXC \<mapsto> commands_exc st)\<rparr>)"

text \<open>
  \<^verbatim>\<open>main\<close> after \<^verbatim>\<open>read_args\<close>, which leaves the paths and the flag in the state. The
  result is the exception that ended the run, or the files and the state at the end.
\<close>

definition run :: "bool \<Rightarrow> 'a files \<Rightarrow> 'a state \<Rightarrow> error + ('a files \<times> 'a state)" where
  "run graceful fs st =
     (case read_config graceful fs st of
        Inl e \<Rightarrow> Inl e
      | Inr st1 \<Rightarrow>
          (case read_commands graceful fs st1 of
             Inl e \<Rightarrow> Inl e
           | Inr st2 \<Rightarrow>
               (case filter_sources st2 of
                  (Some e, st3) \<Rightarrow> Inl e
                | (None, st3) \<Rightarrow>
                    let st4 = filter_headers st3 in Inr (save_commands fs st4, st4))))"

definition main :: "'a files \<Rightarrow> 'a state \<Rightarrow> error + ('a files \<times> 'a state)" where
  "main fs st = run GRACEFUL_EXIT fs st"

section \<open>Notions used to state the properties\<close>

text \<open>
  The decision lines 152 to 157 take for one command that has a relative directory:
  it goes to \<^verbatim>\<open>commands_inc\<close> when this holds.
\<close>

definition included :: "string \<Rightarrow> string \<Rightarrow> string list \<Rightarrow> 'a entry_scheme \<Rightarrow> bool" where
  "included wd root exs cmd =
     (case path_str wd root cmd of Inl e \<Rightarrow> False | Inr p \<Rightarrow> include_folder exs p)"

text \<open>
  The commands the loop of \<^verbatim>\<open>filter_sources\<close> gets through: those before the first one
  whose file has no directory part, where \<^verbatim>\<open>os.path.relpath\<close> raises.
\<close>

definition handled :: "'a entry_scheme list \<Rightarrow> 'a entry_scheme list" where
  "handled cmds = takeWhile (\<lambda>c. sep \<in> set (entry_file c)) cmds"

text \<open>
  A replacement of the occurrences found from the left, as a relation on strings:
  \<open>replaced_from_left old new s r\<close> holds when \<open>s\<close> is cut at the leftmost occurrence of
  \<open>old\<close>, then at the leftmost occurrence in what follows that one, and so on, and \<open>r\<close> is
  \<open>s\<close> with \<open>new\<close> in the place of each of these occurrences and everything else kept.
  The occurrences chosen do not overlap; an occurrence that overlaps a chosen one is not
  replaced.
\<close>

inductive replaced_from_left :: "string \<Rightarrow> string \<Rightarrow> string \<Rightarrow> string \<Rightarrow> bool" where
  no_occurrence: "\<not> sublist old s \<Longrightarrow> replaced_from_left old new s s"
| leftmost: "\<not> sublist old (pre @ butlast old) \<Longrightarrow> replaced_from_left old new post r \<Longrightarrow>
        replaced_from_left old new (pre @ old @ post) (pre @ new @ r)"

text \<open>
  The Header Rewriter on one command string, as a relation: for every excluded path in
  turn, if the plain-include form occurs in the command as it then stands, its
  occurrences found from the left are replaced with the system-include form.
\<close>

inductive rewritten :: "string \<Rightarrow> string list \<Rightarrow> string \<Rightarrow> string \<Rightarrow> bool" where
  no_exclude: "rewritten root [] cmd cmd"
| absent: "\<not> sublist (''-I'' @ path_join root x) cmd \<Longrightarrow> rewritten root xs cmd r \<Longrightarrow>
         rewritten root (x # xs) cmd r"
| present: "sublist (''-I'' @ path_join root x) cmd \<Longrightarrow>
         replaced_from_left (''-I'' @ path_join root x) (''-isystem '' @ path_join root x) cmd d \<Longrightarrow>
         rewritten root xs d r \<Longrightarrow>
         rewritten root (x # xs) cmd r"

text \<open>
  A path in which no dash is the last character or stands before an \<^verbatim>\<open>i\<close> or an \<^verbatim>\<open>I\<close>.
\<close>

fun dash_safe :: "string \<Rightarrow> bool" where
  "dash_safe [] = True"
| "dash_safe [c] = (c \<noteq> CHR ''-'')"
| "dash_safe (c # d # cs) =
     ((c \<noteq> CHR ''-'' \<or> (d \<noteq> CHR ''i'' \<and> d \<noteq> CHR ''I'')) \<and> dash_safe (d # cs))"

subsection \<open>Concrete runs\<close>

text \<open>A state as \<^verbatim>\<open>read_args\<close> leaves it for a project at \<^verbatim>\<open>/root\<close>.\<close>

definition start :: "bool \<Rightarrow> unit state" where
  "start flag =
     \<lparr>cwd = ''/root/build_linux/clang-tidy'',
      path_config = ''/root/build_linux/clang-tidy/excludes_clang_tidy.json'',
      path_build = ''/root/_build'',
      path_root = ''/root'',
      isystem = flag,
      commands = [], excludes = [], commands_inc = [], commands_exc = []\<rparr>"

definition disk :: "string list list \<Rightarrow> entry list \<Rightarrow> unit files" where
  "disk cfg db =
     \<lparr>config_at = [''/root/build_linux/clang-tidy/excludes_clang_tidy.json'' \<mapsto> cfg],
      database_at = [''/root/_build/compile_commands.json'' \<mapsto> db]\<rparr>"

definition compile :: "string \<Rightarrow> entry" where
  "compile f = \<lparr>entry_file = f, entry_command = ''cc -c '' @ f\<rparr>"

text \<open>The state after both loaders have run on a configuration and a database.\<close>

definition loaded :: "string list \<Rightarrow> entry list \<Rightarrow> bool \<Rightarrow> unit state" where
  "loaded exs db flag = (start flag)\<lparr>excludes := exs, commands := db\<rparr>"

text \<open>A state before \<^verbatim>\<open>filter_headers\<close>: one included entry with two include flags.\<close>

definition headers_case :: "bool \<Rightarrow> unit state" where
  "headers_case flag =
     (loaded [''/vendor/lib''] [] flag)
       \<lparr>commands_inc :=
          [\<lparr>entry_file = ''/root/src/y.cpp'',
            entry_command = ''cc -I/root/vendor/lib -I/root/vendor/lib/inc -c y.cpp''\<rparr>]\<rparr>"

text \<open>
  Two more states before \<^verbatim>\<open>filter_headers\<close>, with the flag set: an excluded directory
  with a dash in its name, and one whose name ends in a dash, with a command in which
  two occurrences of its plain-include form overlap.
\<close>

definition dash_case :: "unit state" where
  "dash_case =
     (loaded [''/build_linux/clang-tidy''] [] True)
       \<lparr>commands_inc :=
          [\<lparr>entry_file = ''/root/src/y.cpp'',
            entry_command = ''cc -I/root/build_linux/clang-tidy -c y.cpp''\<rparr>]\<rparr>"

definition overlap_case :: "unit state" where
  "overlap_case =
     (loaded [''/a-''] [] True)
       \<lparr>commands_inc :=
          [\<lparr>entry_file = ''/root/src/y.cpp'',
            entry_command = ''cc -I/root/a-I/root/a- -c y.cpp''\<rparr>]\<rparr>"

text \<open>A disk without the two input files, and one with the configuration only.\<close>

definition no_files :: "unit files" where
  "no_files = \<lparr>config_at = Map.empty, database_at = Map.empty\<rparr>"

definition config_only :: "string list list \<Rightarrow> unit files" where
  "config_only cfg =
     \<lparr>config_at = [''/root/build_linux/clang-tidy/excludes_clang_tidy.json'' \<mapsto> cfg],
      database_at = Map.empty\<rparr>"

text \<open>What a run leaves in the two files it writes, or the exception that ended it.\<close>

definition outcome ::
  "error + ('a files \<times> 'a state) \<Rightarrow> error + ('a entry_scheme list option \<times> 'a entry_scheme list option)" where
  "outcome r =
     (case r of
        Inl e \<Rightarrow> Inl e
      | Inr (fs, st) \<Rightarrow>
          Inr (database_at fs (path_join (path_build st) ''compile_commands_inc.json''),
               database_at fs (path_join (path_build st) ''compile_commands_exc.json'')))"

section \<open>Facts about the partition\<close>

lemma str_in_sublist: "str_in x s \<longleftrightarrow> sublist x s"
  by (induction s) (auto simp: sublist_Cons_right)

lemma include_folder_iff: "include_folder exs p \<longleftrightarrow> (\<forall>x\<in>set exs. \<not> str_in x p)"
  by (induction exs) auto

lemma eq_replicate_iff: "(h = replicate (length h) d) = (\<forall>x\<in>set h. x = d)"
  by (induction h) auto

lemma rstrip_Nil_iff: "(rstrip d h = []) = (\<forall>x\<in>set h. x = d)"
  unfolding rstrip_def by simp

lemma dirname_empty_iff: "dirname p = [] \<longleftrightarrow> sep \<notin> set p"
proof -
  define h where "h = rev (dropWhile (\<lambda>c. c \<noteq> sep) (rev p))"
  have h: "h = [] \<longleftrightarrow> sep \<notin> set p"
    unfolding h_def by auto
  have d: "dirname p = (if h \<noteq> [] \<and> \<not> (\<forall>x\<in>set h. x = sep) then rstrip sep h else h)"
    unfolding dirname_def Let_def h_def[symmetric] eq_replicate_iff ..
  show ?thesis
  proof (cases "h \<noteq> [] \<and> \<not> (\<forall>x\<in>set h. x = sep)")
    case True
    then have "dirname p = rstrip sep h" using d by simp
    moreover have "rstrip sep h \<noteq> []" using True by (simp add: rstrip_Nil_iff)
    ultimately show ?thesis using True h by simp
  next
    case False
    then have "dirname p = h" using d by auto
    then show ?thesis using h by simp
  qed
qed

lemma relpath_Inl_iff:
  "relpath wd p s = Inl e \<longleftrightarrow> p = [] \<and> e = ValueError ''no path specified''"
  unfolding relpath_def Let_def by auto

lemma path_str_Inl_iff:
  "path_str wd root cmd = Inl e \<longleftrightarrow>
     sep \<notin> set (entry_file cmd) \<and> e = ValueError ''no path specified''"
proof (cases "relpath wd (dirname (entry_file cmd)) root")
  case (Inl a)
  then show ?thesis
    using relpath_Inl_iff[of wd "dirname (entry_file cmd)" root a]
    by (auto simp: path_str_def dirname_empty_iff)
next
  case (Inr b)
  then have "dirname (entry_file cmd) \<noteq> []"
    using relpath_Inl_iff[of wd "dirname (entry_file cmd)" root "ValueError ''no path specified''"]
    by auto
  with Inr show ?thesis
    by (simp add: path_str_def dirname_empty_iff)
qed

lemma path_str_Inr_sep: "path_str wd root cmd = Inr p \<Longrightarrow> \<exists>rel. p = sep # rel"
  by (auto simp: path_str_def split: sum.splits)

lemma included_Inr:
  "path_str wd root cmd = Inr p \<Longrightarrow> included wd root exs cmd = include_folder exs p"
  by (simp add: included_def)

lemma filter_loop_Cons_Inl:
  "path_str wd root cmd = Inl e \<Longrightarrow> filter_loop wd root exs (cmd # cmds) inc exc = (Some e, inc, exc)"
  by simp

lemma filter_loop_Cons_Inr:
  "path_str wd root cmd = Inr p \<Longrightarrow>
   filter_loop wd root exs (cmd # cmds) inc exc =
     (if included wd root exs cmd
      then filter_loop wd root exs cmds (inc @ [cmd]) exc
      else filter_loop wd root exs cmds inc (exc @ [cmd]))"
  by (simp add: included_def)

text \<open>The loop handles a prefix of the commands: all of them unless a file has no directory.\<close>

lemma filter_loop_take:
  "\<exists>k\<le>length cmds.
     filter_loop wd root exs cmds inc exc =
       (if k = length cmds then None else Some (ValueError ''no path specified''),
        inc @ filter (included wd root exs) (take k cmds),
        exc @ filter (\<lambda>c. \<not> included wd root exs c) (take k cmds))
     \<and> (k = length cmds \<longleftrightarrow> (\<forall>c\<in>set cmds. sep \<in> set (entry_file c)))"
proof (induction cmds arbitrary: inc exc)
  case Nil
  then show ?case by simp
next
  case (Cons cmd cmds)
  show ?case
  proof (cases "path_str wd root cmd")
    case (Inl e)
    then have "sep \<notin> set (entry_file cmd)" "e = ValueError ''no path specified''"
      using path_str_Inl_iff by blast+
    then show ?thesis
      unfolding filter_loop_Cons_Inl[OF Inl]
      by (intro exI[of _ 0]) simp
  next
    case (Inr p)
    then have s: "sep \<in> set (entry_file cmd)"
      using path_str_Inl_iff[of wd root cmd "ValueError ''no path specified''"] by auto
    show ?thesis
    proof (cases "included wd root exs cmd")
      case True
      from Cons.IH[of "inc @ [cmd]" exc] obtain k where k: "k \<le> length cmds"
        "filter_loop wd root exs cmds (inc @ [cmd]) exc =
       (if k = length cmds then None else Some (ValueError ''no path specified''),
        (inc @ [cmd]) @ filter (included wd root exs) (take k cmds),
        exc @ filter (\<lambda>c. \<not> included wd root exs c) (take k cmds))"
        "k = length cmds \<longleftrightarrow> (\<forall>c\<in>set cmds. sep \<in> set (entry_file c))"
        by blast
      show ?thesis
        unfolding filter_loop_Cons_Inr[OF Inr]
        using k True s by (intro exI[of _ "Suc k"]) simp
    next
      case False
      from Cons.IH[of inc "exc @ [cmd]"] obtain k where k: "k \<le> length cmds"
        "filter_loop wd root exs cmds inc (exc @ [cmd]) =
       (if k = length cmds then None else Some (ValueError ''no path specified''),
        inc @ filter (included wd root exs) (take k cmds),
        (exc @ [cmd]) @ filter (\<lambda>c. \<not> included wd root exs c) (take k cmds))"
        "k = length cmds \<longleftrightarrow> (\<forall>c\<in>set cmds. sep \<in> set (entry_file c))"
        by blast
      show ?thesis
        unfolding filter_loop_Cons_Inr[OF Inr]
        using k False s by (intro exI[of _ "Suc k"]) simp
    qed
  qed
qed

text \<open>Filtering a prefix of a list, by positions.\<close>

lemma take_positions: "k \<le> length xs \<Longrightarrow> take k xs = map ((!) xs) [0..<k]"
  by (rule nth_equalityI) auto

lemma filter_take_positions:
  assumes "k \<le> length xs"
  shows "filter P (take k xs) = map ((!) xs) (filter (\<lambda>i. P (xs ! i)) [0..<k])"
  unfolding take_positions[OF assms] filter_map comp_def ..

lemma filter_sources_take:
  "\<exists>k\<le>length (commands st).
     filter_sources st =
       (if k = length (commands st) then None else Some (ValueError ''no path specified''),
        st\<lparr>commands_inc := commands_inc st @
                 filter (included (cwd st) (path_root st) (excludes st)) (take k (commands st)),
           commands_exc := commands_exc st @
                 filter (\<lambda>c. \<not> included (cwd st) (path_root st) (excludes st) c) (take k (commands st))\<rparr>)
     \<and> (k = length (commands st) \<longleftrightarrow> (\<forall>c\<in>set (commands st). sep \<in> set (entry_file c)))"
proof -
  from filter_loop_take[of "commands st" "cwd st" "path_root st" "excludes st" "commands_inc st" "commands_exc st"]
  obtain k where k: "k \<le> length (commands st)"
    "filter_loop (cwd st) (path_root st) (excludes st) (commands st) (commands_inc st) (commands_exc st) =
       (if k = length (commands st) then None else Some (ValueError ''no path specified''),
        commands_inc st @ filter (included (cwd st) (path_root st) (excludes st)) (take k (commands st)),
        commands_exc st @ filter (\<lambda>c. \<not> included (cwd st) (path_root st) (excludes st) c) (take k (commands st)))"
    "k = length (commands st) \<longleftrightarrow> (\<forall>c\<in>set (commands st). sep \<in> set (entry_file c))"
    by blast
  show ?thesis
    by (rule exI[of _ k]) (simp add: k filter_sources_def)
qed

section \<open>The Partitioner\<close>

lemma include_folder_set: "set exs' = set exs \<Longrightarrow> include_folder exs' p = include_folder exs p"
  by (simp add: include_folder_iff)

lemma filter_loop_set:
  "set exs' = set exs \<Longrightarrow>
   filter_loop wd root exs' cmds inc exc = filter_loop wd root exs cmds inc exc"
proof (induction cmds arbitrary: inc exc)
  case Nil
  then show ?case by simp
next
  case (Cons cmd cmds)
  have "include_folder exs' p = include_folder exs p" for p
    using Cons.prems by (rule include_folder_set)
  then show ?case
    using Cons.IH[OF Cons.prems] by (simp split: sum.splits)
qed

lemma sep_excludes_all:
  assumes "[sep] \<in> set exs"
  shows "\<not> included wd root exs cmd"
proof (cases "path_str wd root cmd")
  case (Inl a)
  then show ?thesis by (simp add: included_def)
next
  case (Inr p)
  then obtain rel where "p = sep # rel" using path_str_Inr_sep by blast
  then have "str_in [sep] p" by simp
  with assms have "\<not> include_folder exs p" by (auto simp: include_folder_iff)
  with Inr show ?thesis by (simp add: included_def)
qed

text \<open>
  C1, as amended. For every compilation database in which each entry's file has a
  directory part (its \<^verbatim>\<open>file\<close> holds a separator) and every exclude list,
  \<^verbatim>\<open>filter_sources\<close>, started on empty lists, ends without an exception and puts each
  entry of the database into exactly one of \<^verbatim>\<open>commands_inc\<close> and \<^verbatim>\<open>commands_exc\<close>: the two
  lists are the entries at two sets of positions that are disjoint and together are all
  positions, and their lengths add up to the length of the database.
\<close>

theorem partition_complete:
  fixes st :: "'a state"
  assumes "commands_inc st = []" and "commands_exc st = []"
    and "\<forall>c\<in>set (commands st). sep \<in> set (entry_file c)"
  shows "\<exists>st' ins exs.
           filter_sources st = (None, st') \<and>
           distinct (ins @ exs) \<and>
           set (ins @ exs) = {..<length (commands st)} \<and>
           commands_inc st' = map ((!) (commands st)) ins \<and>
           commands_exc st' = map ((!) (commands st)) exs \<and>
           length (commands_inc st') + length (commands_exc st') = length (commands st)"
proof -
  define P :: "'a entry_scheme \<Rightarrow> bool" where "P = included (cwd st) (path_root st) (excludes st)"
  define n where "n = length (commands st)"
  define ins where "ins = filter (\<lambda>i. P (commands st ! i)) [0..<n]"
  define exs where "exs = filter (\<lambda>i. \<not> P (commands st ! i)) [0..<n]"
  define st' where "st' = st\<lparr>commands_inc := filter P (commands st),
                              commands_exc := filter (\<lambda>c. \<not> P c) (commands st)\<rparr>"
  from filter_sources_take[of st] assms
  have run: "filter_sources st = (None, st')"
    by (auto simp: st'_def P_def)
  have inc: "commands_inc st' = map ((!) (commands st)) ins"
    using filter_take_positions[of n "commands st" P]
    by (simp add: st'_def ins_def n_def)
  have exc: "commands_exc st' = map ((!) (commands st)) exs"
    using filter_take_positions[of n "commands st" "\<lambda>c. \<not> P c"]
    by (simp add: st'_def exs_def n_def)
  have d: "distinct (ins @ exs)"
    by (auto simp: ins_def exs_def)
  have s: "set (ins @ exs) = {..<n}"
    by (auto simp: ins_def exs_def)
  have l: "length (commands_inc st') + length (commands_exc st') = n"
    by (simp add: st'_def n_def sum_length_filter_compl)
  show ?thesis
    using run d s inc exc l unfolding n_def by blast
qed

text \<open>
  C1, witness: the database of the specification's scenario, with \<^verbatim>\<open>vendor/lib\<close> excluded.
\<close>

theorem partition_complete_witness:
  "\<exists>st' ins exs.
     filter_sources (loaded [''/vendor/lib'']
        [compile ''/root/vendor/lib/x.cpp'', compile ''/root/src/y.cpp''] False) = (None, st') \<and>
     distinct (ins @ exs) \<and>
     set (ins @ exs) = {..<length (commands (loaded [''/vendor/lib'']
        [compile ''/root/vendor/lib/x.cpp'', compile ''/root/src/y.cpp''] False))} \<and>
     commands_inc st' = map ((!) (commands (loaded [''/vendor/lib'']
        [compile ''/root/vendor/lib/x.cpp'', compile ''/root/src/y.cpp''] False))) ins \<and>
     commands_exc st' = map ((!) (commands (loaded [''/vendor/lib'']
        [compile ''/root/vendor/lib/x.cpp'', compile ''/root/src/y.cpp''] False))) exs \<and>
     length (commands_inc st') + length (commands_exc st') =
       length (commands (loaded [''/vendor/lib'']
        [compile ''/root/vendor/lib/x.cpp'', compile ''/root/src/y.cpp''] False))"
  by (rule partition_complete) (simp_all add: loaded_def start_def compile_def sep_def)

text \<open>
  C1 as stated fails: for the database of the one entry whose file is \<^verbatim>\<open>x.cpp\<close>,
  \<^verbatim>\<open>os.path.dirname\<close> is empty, \<^verbatim>\<open>os.path.relpath\<close> raises \<^verbatim>\<open>ValueError\<close>, and the entry is in
  neither list.
\<close>

theorem partition_complete_counterexample:
  "fst (filter_sources (loaded [] [compile ''x.cpp''] False)) =
     Some (ValueError ''no path specified'') \<and>
   length (commands_inc (snd (filter_sources (loaded [] [compile ''x.cpp''] False)))) +
   length (commands_exc (snd (filter_sources (loaded [] [compile ''x.cpp''] False))))
     \<noteq> length (commands (loaded [] [compile ''x.cpp''] False))"
  by code_simp

text \<open>
  C2, the run the claim describes: the configuration holds the one entry \<^verbatim>\<open>["foo"]\<close>, the
  root is \<^verbatim>\<open>/root\<close>. The entry with the file \<^verbatim>\<open>/root/foo/bar.cpp\<close> is excluded, and so is
  the entry with the file \<^verbatim>\<open>/root/foobar/bar.cpp\<close>, since \<^verbatim>\<open>/foo\<close> is a substring of
  \<^verbatim>\<open>/foobar\<close>: the included file is empty and the excluded file holds both.
\<close>

theorem foobar_is_excluded:
  "outcome (main (disk [[''foo'']]
       [compile ''/root/foo/bar.cpp'', compile ''/root/foobar/bar.cpp'']) (start False)) =
   Inr (Some [], Some [compile ''/root/foo/bar.cpp'', compile ''/root/foobar/bar.cpp''])"
  by code_simp

text \<open>
  C3. The test is a substring test on the relative directory behind a separator: for
  the file \<^verbatim>\<open>/root/sub/foo/bar/x.cpp\<close> and the root \<^verbatim>\<open>/root\<close> that string is
  \<^verbatim>\<open>/sub/foo/bar\<close>, the excluded path \<^verbatim>\<open>/foo\<close> occurs in it though not at its start, and
  the entry is written to the excluded file.
\<close>

theorem mid_path_match:
  "path_str ''/root/build_linux/clang-tidy'' ''/root'' (compile ''/root/sub/foo/bar/x.cpp'') =
     Inr ''/sub/foo/bar'' \<and>
   str_in ''/foo'' ''/sub/foo/bar'' \<and> \<not> prefix ''/foo'' ''/sub/foo/bar'' \<and>
   outcome (main (disk [[''foo'']] [compile ''/root/sub/foo/bar/x.cpp'']) (start False)) =
     Inr (Some [], Some [compile ''/root/sub/foo/bar/x.cpp''])"
  by code_simp

lemma filter_loop_handled:
  "filter_loop wd root exs cmds inc exc =
     (if handled cmds = cmds then None else Some (ValueError ''no path specified''),
      inc @ filter (included wd root exs) (handled cmds),
      exc @ filter (\<lambda>c. \<not> included wd root exs c) (handled cmds))"
proof (induction cmds arbitrary: inc exc)
  case Nil
  show ?case by (simp add: handled_def)
next
  case (Cons cmd cmds)
  show ?case
  proof (cases "path_str wd root cmd")
    case (Inl e)
    then have "sep \<notin> set (entry_file cmd)" and "e = ValueError ''no path specified''"
      using path_str_Inl_iff by blast+
    then show ?thesis
      unfolding filter_loop_Cons_Inl[OF Inl] by (simp add: handled_def)
  next
    case (Inr p)
    then have s: "sep \<in> set (entry_file cmd)"
      using path_str_Inl_iff[of wd root cmd "ValueError ''no path specified''"] by auto
    then have h: "handled (cmd # cmds) = cmd # handled cmds"
      by (simp add: handled_def)
    show ?thesis
    proof (cases "included wd root exs cmd")
      case True
      show ?thesis
        unfolding filter_loop_Cons_Inr[OF Inr] h
        using True Cons.IH[of "inc @ [cmd]" exc] by simp
    next
      case False
      show ?thesis
        unfolding filter_loop_Cons_Inr[OF Inr] h
        using False Cons.IH[of inc "exc @ [cmd]"] by simp
    qed
  qed
qed

lemma handled_take: "handled cmds = take (length (handled cmds)) cmds"
  unfolding handled_def by (rule takeWhile_eq_take)

lemma length_handled_le: "length (handled cmds) \<le> length cmds"
  unfolding handled_def by (rule length_takeWhile_le)

lemma filter_handled_positions:
  "filter P (handled cmds) =
     map ((!) cmds) (filter (\<lambda>i. P (cmds ! i)) [0..<length (handled cmds)])"
proof -
  have "filter P (handled cmds) = filter P (take (length (handled cmds)) cmds)"
    using handled_take[of cmds] by simp
  also have "\<dots> = map ((!) cmds) (filter (\<lambda>i. P (cmds ! i)) [0..<length (handled cmds)])"
    by (rule filter_take_positions[OF length_handled_le])
  finally show ?thesis .
qed

text \<open>
  C4. For every database and exclude list, \<^verbatim>\<open>filter_sources\<close> appends to \<^verbatim>\<open>commands_inc\<close>
  exactly the entries it handles and decides to include, and to \<^verbatim>\<open>commands_exc\<close> exactly
  the entries it handles and decides to exclude, each in the order in which the loop
  meets them: the two lists appended are the database's entries at the strictly
  increasing positions of the included, and of the excluded, entries among those
  handled. The loop handles the whole database exactly when it ends without an
  exception.
\<close>

theorem order_preserved:
  fixes st :: "'a state"
  shows "commands_inc (snd (filter_sources st)) =
           commands_inc st @
           filter (included (cwd st) (path_root st) (excludes st)) (handled (commands st)) \<and>
         commands_exc (snd (filter_sources st)) =
           commands_exc st @
           filter (\<lambda>c. \<not> included (cwd st) (path_root st) (excludes st) c) (handled (commands st)) \<and>
         filter (included (cwd st) (path_root st) (excludes st)) (handled (commands st)) =
           map ((!) (commands st))
             (filter (\<lambda>i. included (cwd st) (path_root st) (excludes st) (commands st ! i))
                [0..<length (handled (commands st))]) \<and>
         filter (\<lambda>c. \<not> included (cwd st) (path_root st) (excludes st) c) (handled (commands st)) =
           map ((!) (commands st))
             (filter (\<lambda>i. \<not> included (cwd st) (path_root st) (excludes st) (commands st ! i))
                [0..<length (handled (commands st))]) \<and>
         sorted_wrt (<)
           (filter (\<lambda>i. included (cwd st) (path_root st) (excludes st) (commands st ! i))
              [0..<length (handled (commands st))]) \<and>
         sorted_wrt (<)
           (filter (\<lambda>i. \<not> included (cwd st) (path_root st) (excludes st) (commands st ! i))
              [0..<length (handled (commands st))]) \<and>
         ((fst (filter_sources st) = None) = (handled (commands st) = commands st))"
proof -
  define P :: "'a entry_scheme \<Rightarrow> bool" where "P = included (cwd st) (path_root st) (excludes st)"
  have fs: "filter_sources st =
      (if handled (commands st) = commands st then None else Some (ValueError ''no path specified''),
       st\<lparr>commands_inc := commands_inc st @ filter P (handled (commands st)),
          commands_exc := commands_exc st @ filter (\<lambda>c. \<not> P c) (handled (commands st))\<rparr>)"
    unfolding filter_sources_def P_def filter_loop_handled by simp
  have 1: "commands_inc (snd (filter_sources st)) = commands_inc st @ filter P (handled (commands st))"
    and 2: "commands_exc (snd (filter_sources st)) =
              commands_exc st @ filter (\<lambda>c. \<not> P c) (handled (commands st))"
    and 7: "(fst (filter_sources st) = None) = (handled (commands st) = commands st)"
    by (simp_all add: fs)
  have 3: "filter P (handled (commands st)) =
      map ((!) (commands st)) (filter (\<lambda>i. P (commands st ! i)) [0..<length (handled (commands st))])"
    by (rule filter_handled_positions)
  have 4: "filter (\<lambda>c. \<not> P c) (handled (commands st)) =
      map ((!) (commands st)) (filter (\<lambda>i. \<not> P (commands st ! i)) [0..<length (handled (commands st))])"
    by (rule filter_handled_positions)
  have 5: "sorted_wrt (<) (filter (\<lambda>i. P (commands st ! i)) [0..<length (handled (commands st))])"
    and 6: "sorted_wrt (<) (filter (\<lambda>i. \<not> P (commands st ! i)) [0..<length (handled (commands st))])"
    by (simp_all add: sorted_wrt_filter)
  from 1 2 3 4 5 6 7 show ?thesis
    unfolding P_def by blast
qed

text \<open>
  C4, witness: an excluded entry between two included ones; the included list keeps the
  first before the third.
\<close>

theorem order_preserved_witness:
  "commands_inc (snd (filter_sources (loaded [''/vendor/lib'']
      [compile ''/root/src/y.cpp'', compile ''/root/vendor/lib/x.cpp'', compile ''/root/src/z.cpp''] False))) =
     [compile ''/root/src/y.cpp'', compile ''/root/src/z.cpp''] \<and>
   commands_exc (snd (filter_sources (loaded [''/vendor/lib'']
      [compile ''/root/src/y.cpp'', compile ''/root/vendor/lib/x.cpp'', compile ''/root/src/z.cpp''] False))) =
     [compile ''/root/vendor/lib/x.cpp'']"
proof -
  define S where "S = loaded [''/vendor/lib'']
      [compile ''/root/src/y.cpp'', compile ''/root/vendor/lib/x.cpp'', compile ''/root/src/z.cpp''] False"
  have a: "commands_inc S @ filter (included (cwd S) (path_root S) (excludes S)) (handled (commands S)) =
      [compile ''/root/src/y.cpp'', compile ''/root/src/z.cpp'']"
    unfolding S_def by code_simp
  have b: "commands_exc S @
      filter (\<lambda>c. \<not> included (cwd S) (path_root S) (excludes S) c) (handled (commands S)) =
      [compile ''/root/vendor/lib/x.cpp'']"
    unfolding S_def by code_simp
  from order_preserved[of S] a b show ?thesis
    unfolding S_def by simp
qed

text \<open>
  C8. The loop over the excludes decides "included" exactly when no excluded path is a
  substring of the string tested, so any exclude list with the same elements, in any
  order, gives the same decision and the same partition.
\<close>

theorem exclude_order_irrelevant:
  assumes "set exs' = set exs"
  shows "(include_folder exs p \<longleftrightarrow> \<not> (\<exists>x\<in>set exs. sublist x p)) \<and>
         include_folder exs' p = include_folder exs p \<and>
         filter_loop wd root exs' cmds inc exc = filter_loop wd root exs cmds inc exc"
proof -
  have "include_folder exs p \<longleftrightarrow> \<not> (\<exists>x\<in>set exs. sublist x p)"
    by (simp add: include_folder_iff str_in_sublist)
  moreover have "include_folder exs' p = include_folder exs p"
    using assms by (rule include_folder_set)
  moreover have "filter_loop wd root exs' cmds inc exc = filter_loop wd root exs cmds inc exc"
    using assms by (rule filter_loop_set)
  ultimately show ?thesis by blast
qed

text \<open>C8, witness: two excludes in both orders.\<close>

theorem exclude_order_irrelevant_witness:
  "include_folder [''/b'', ''/a''] ''/a/x'' = include_folder [''/a'', ''/b''] ''/a/x'' \<and>
   filter_loop ''/w'' ''/root'' [''/b'', ''/a''] [compile ''/root/a/x.cpp''] [] [] =
   filter_loop ''/w'' ''/root'' [''/a'', ''/b''] [compile ''/root/a/x.cpp''] [] []"
proof -
  have "set [''/b'', ''/a''] = set [''/a'', ''/b'']" by auto
  from exclude_order_irrelevant[OF this] show ?thesis by blast
qed

text \<open>
  C10, as amended. If the configuration's array holds an empty inner array,
  \<^verbatim>\<open>read_config\<close> produces the separator alone as an excluded path; then \<^verbatim>\<open>filter_sources\<close>
  adds nothing to \<^verbatim>\<open>commands_inc\<close>, and for every database in which each entry's file has
  a directory part it ends without an exception with every entry of the database
  appended to \<^verbatim>\<open>commands_exc\<close>.
\<close>

theorem empty_inner_array_excludes_all:
  fixes st :: "'a state"
  assumes "config_at fs (path_config st) = Some raw" and "[] \<in> set raw"
  shows "\<exists>st1. read_config graceful fs st = Inr st1 \<and> [sep] \<in> set (excludes st1) \<and>
           commands_inc (snd (filter_sources (st1\<lparr>commands := cmds\<rparr>))) = commands_inc st \<and>
           ((\<forall>c\<in>set cmds. sep \<in> set (entry_file c)) \<longrightarrow>
              fst (filter_sources (st1\<lparr>commands := cmds\<rparr>)) = None \<and>
              commands_exc (snd (filter_sources (st1\<lparr>commands := cmds\<rparr>))) = commands_exc st @ cmds)"
proof -
  define st1 where "st1 = st\<lparr>excludes := excludes st @
                     map (\<lambda>exclude_raw. sep # str_join [sep] exclude_raw) raw\<rparr>"
  have rc: "read_config graceful fs st = Inr st1"
    using assms(1) by (simp add: read_config_def st1_def)
  have "sep # str_join [sep] [] \<in> (\<lambda>exclude_raw. sep # str_join [sep] exclude_raw) ` set raw"
    using assms(2) by (rule imageI)
  then have ex: "[sep] \<in> set (excludes st1)"
    by (simp add: st1_def)
  define st2 where "st2 = st1\<lparr>commands := cmds\<rparr>"
  have ex2: "[sep] \<in> set (excludes st2)" using ex by (simp add: st2_def)
  have none: "filter (included (cwd st2) (path_root st2) (excludes st2)) xs = []"
    for xs :: "'a entry_scheme list"
    by (rule filter_False) (simp add: sep_excludes_all[OF ex2])
  have all: "filter (\<lambda>c. \<not> included (cwd st2) (path_root st2) (excludes st2) c) xs = xs"
    for xs :: "'a entry_scheme list"
    by (rule filter_True) (simp add: sep_excludes_all[OF ex2])
  from filter_sources_take[of st2] obtain k where k: "k \<le> length (commands st2)"
    "filter_sources st2 =
       (if k = length (commands st2) then None else Some (ValueError ''no path specified''),
        st2\<lparr>commands_inc := commands_inc st2 @ [], commands_exc := commands_exc st2 @ take k (commands st2)\<rparr>)"
    "k = length (commands st2) \<longleftrightarrow> (\<forall>c\<in>set (commands st2). sep \<in> set (entry_file c))"
    unfolding none all by blast
  have fields: "commands_inc st2 = commands_inc st" "commands_exc st2 = commands_exc st"
    "commands st2 = cmds"
    by (simp_all add: st2_def st1_def)
  have "commands_inc (snd (filter_sources st2)) = commands_inc st2"
    by (simp add: k(2))
  then have a: "commands_inc (snd (filter_sources st2)) = commands_inc st"
    by (simp only: fields)
  have b: "(\<forall>c\<in>set cmds. sep \<in> set (entry_file c)) \<longrightarrow>
              fst (filter_sources st2) = None \<and>
              commands_exc (snd (filter_sources st2)) = commands_exc st @ cmds"
  proof
    assume "\<forall>c\<in>set cmds. sep \<in> set (entry_file c)"
    then have "k = length (commands st2)" using k(3) by (simp only: fields)
    then have "fst (filter_sources st2) = None"
      "commands_exc (snd (filter_sources st2)) = commands_exc st2 @ commands st2"
      by (simp_all add: k(2))
    then show "fst (filter_sources st2) = None \<and>
              commands_exc (snd (filter_sources st2)) = commands_exc st @ cmds"
      by (simp only: fields)
  qed
  show ?thesis
    using rc ex a b unfolding st2_def by blast
qed

text \<open>C10, witness: the configuration \<^verbatim>\<open>[[]]\<close> and a database of two entries.\<close>

theorem empty_inner_array_excludes_all_witness:
  "\<exists>st1. read_config False (disk [[]] []) (start False) = Inr st1 \<and>
     [sep] \<in> set (excludes st1) \<and>
     commands_inc (snd (filter_sources
        (st1\<lparr>commands := [compile ''/root/a/x.cpp'', compile ''/root/y.cpp'']\<rparr>))) = [] \<and>
     fst (filter_sources
        (st1\<lparr>commands := [compile ''/root/a/x.cpp'', compile ''/root/y.cpp'']\<rparr>)) = None \<and>
     commands_exc (snd (filter_sources
        (st1\<lparr>commands := [compile ''/root/a/x.cpp'', compile ''/root/y.cpp'']\<rparr>))) =
       [compile ''/root/a/x.cpp'', compile ''/root/y.cpp'']"
proof -
  have cfg: "config_at (disk [[]] []) (path_config (start False)) = Some [[]]"
    by (simp add: disk_def start_def)
  have mem: "[] \<in> set [[]::string list]" by simp
  have dirs: "\<forall>c\<in>set [compile ''/root/a/x.cpp'', compile ''/root/y.cpp'']. sep \<in> set (entry_file c)"
    by (simp add: compile_def sep_def)
  from empty_inner_array_excludes_all[OF cfg mem, of False
         "[compile ''/root/a/x.cpp'', compile ''/root/y.cpp'']"] dirs
  show ?thesis by (simp add: start_def)
qed

text \<open>
  C10 as stated fails: with the configuration \<^verbatim>\<open>[[]]\<close> and the database of the one entry
  whose file is \<^verbatim>\<open>x.cpp\<close>, the loop ends with \<^verbatim>\<open>ValueError\<close> and the entry is not in
  \<^verbatim>\<open>commands_exc\<close>.
\<close>

theorem empty_inner_array_counterexample:
  "read_config False (disk [[]] [compile ''x.cpp'']) (start False) = Inr (loaded [[sep]] [] False) \<and>
   fst (filter_sources (loaded [[sep]] [compile ''x.cpp''] False)) =
     Some (ValueError ''no path specified'') \<and>
   commands_exc (snd (filter_sources (loaded [[sep]] [compile ''x.cpp''] False))) = []"
  by code_simp

section \<open>The Header Rewriter\<close>

lemma not_sublist_butlast: "old \<noteq> [] \<Longrightarrow> \<not> sublist old (butlast old)"
proof
  assume ne: "old \<noteq> []" and "sublist old (butlast old)"
  then obtain ps ss where "butlast old = ps @ old @ ss"
    by (auto simp: sublist_def)
  then have "length (butlast old) = length (ps @ old @ ss)" by (rule arg_cong)
  then have "length old \<le> length (butlast old)" by simp
  with ne show False by (simp add: length_greater_0_conv[symmetric] del: length_greater_0_conv)
qed

lemma replaced_from_left_Cons:
  assumes "replaced_from_left old new s r" and "\<not> prefix old (c # s)"
  shows "replaced_from_left old new (c # s) (c # r)"
  using assms
proof (cases rule: replaced_from_left.cases)
  case no_occurrence
  then have "\<not> sublist old (c # s)"
    using assms(2) by (simp add: sublist_Cons_right)
  with no_occurrence show ?thesis
    by (simp add: replaced_from_left.no_occurrence)
next
  case (leftmost pre post r')
  have "old \<noteq> []" using assms(2) by auto
  then have old: "butlast old @ last old # post = old @ post"
    by (metis append_butlast_last_id append_Cons append_Nil append_assoc)
  have "\<not> prefix old (c # pre @ butlast old)"
  proof
    assume "prefix old (c # pre @ butlast old)"
    then have "prefix old ((c # pre @ butlast old) @ (last old # post))"
      using prefix_prefix by blast
    moreover have "(c # pre @ butlast old) @ (last old # post) = c # pre @ old @ post"
      using old by simp
    ultimately have "prefix old (c # pre @ old @ post)" by (simp only:)
    then show False using assms(2) leftmost(1) by simp
  qed
  with leftmost(3) have "\<not> sublist old ((c # pre) @ butlast old)"
    by (simp add: sublist_Cons_right)
  from replaced_from_left.leftmost[OF this leftmost(4)] leftmost(1,2)
  show ?thesis by simp
qed

lemma replace_from_replaced_from_left:
  "old \<noteq> [] \<Longrightarrow> replaced_from_left old new s (replace_from old new s)"
proof (induction old new s rule: replace_from.induct)
  case (1 old new)
  then show ?case by (simp add: replaced_from_left.no_occurrence)
next
  case (2 old new c cs)
  show ?case
  proof (cases "prefix old (c # cs)")
    case True
    then obtain rest where rest: "c # cs = old @ rest"
      by (auto simp: prefix_def)
    then have d: "drop (length old) (c # cs) = rest" by simp
    have ih: "replaced_from_left old new rest (replace_from old new rest)"
      using "2.IH"(1) "2.prems" True d by simp
    have "\<not> sublist old ([] @ butlast old)"
      using not_sublist_butlast[OF "2.prems"] by simp
    from replaced_from_left.leftmost[OF this ih]
    have "replaced_from_left old new (old @ rest) (new @ replace_from old new rest)" by simp
    moreover have "replace_from old new (c # cs) = new @ replace_from old new rest"
      using True "2.prems" d by simp
    ultimately show ?thesis using rest by simp
  next
    case False
    have ih: "replaced_from_left old new cs (replace_from old new cs)"
      using "2.IH"(2) "2.prems" False by simp
    have "replace_from old new (c # cs) = c # replace_from old new cs"
      using False by simp
    with replaced_from_left_Cons[OF ih False] show ?thesis by simp
  qed
qed

lemma plain_nonempty: "''-I'' @ p \<noteq> []"
  by simp

lemma header_step_absent:
  "\<not> sublist (''-I'' @ path_join root x) cmd \<Longrightarrow> header_step root cmd x = cmd"
  by (simp add: header_step_def Let_def str_in_sublist)

lemma header_step_present:
  "sublist (''-I'' @ path_join root x) cmd \<Longrightarrow>
   header_step root cmd x =
     replace_from (''-I'' @ path_join root x) (''-isystem '' @ path_join root x) cmd"
  by (simp add: header_step_def Let_def str_in_sublist str_replace_def)

lemma foldl_header_step_rewritten:
  "rewritten root exs cmd (foldl (header_step root) cmd exs)"
proof (induction exs arbitrary: cmd)
  case Nil
  show ?case by (simp add: rewritten.no_exclude)
next
  case (Cons x xs)
  show ?case
  proof (cases "sublist (''-I'' @ path_join root x) cmd")
    case True
    have "replaced_from_left (''-I'' @ path_join root x) (''-isystem '' @ path_join root x) cmd
            (header_step root cmd x)"
      unfolding header_step_present[OF True]
      by (rule replace_from_replaced_from_left) simp
    from rewritten.present[OF True this Cons.IH[of "header_step root cmd x"]]
    show ?thesis by simp
  next
    case False
    from rewritten.absent[OF False Cons.IH[of cmd]]
    show ?thesis by (simp add: header_step_absent[OF False])
  qed
qed

text \<open>
  C7. When the flag \<^verbatim>\<open>isystem\<close> is unset, \<^verbatim>\<open>filter_headers\<close> returns the state it was
  given: the command of every entry, included or excluded, is what it was.
\<close>

theorem rewrite_noop_when_unset:
  assumes "\<not> isystem st"
  shows "filter_headers st = st \<and>
         map entry_command (commands_inc (filter_headers st)) = map entry_command (commands_inc st) \<and>
         map entry_command (commands_exc (filter_headers st)) = map entry_command (commands_exc st)"
  using assms by (simp add: filter_headers_def)

text \<open>C7, witness: the same entry with the flag unset.\<close>

theorem rewrite_noop_when_unset_witness:
  "filter_headers (headers_case False) = headers_case False \<and>
   map entry_command (commands_inc (filter_headers (headers_case False))) =
     map entry_command (commands_inc (headers_case False)) \<and>
   map entry_command (commands_exc (filter_headers (headers_case False))) =
     map entry_command (commands_exc (headers_case False))"
  by (rule rewrite_noop_when_unset) (simp add: headers_case_def loaded_def start_def)

section \<open>Occurrences the rewriting leaves, and rewriting twice\<close>

lemma dash_safe_tl: "dash_safe (c # cs) \<Longrightarrow> dash_safe cs"
  by (cases cs) simp_all

lemma dash_safe_suffix: "dash_safe (xs @ ys) \<Longrightarrow> dash_safe ys"
  by (induction xs) (auto dest: dash_safe_tl)

lemma dash_safe_dash:
  "dash_safe (CHR ''-'' # w) \<Longrightarrow> \<exists>a w'. w = a # w' \<and> a \<noteq> CHR ''i'' \<and> a \<noteq> CHR ''I''"
  by (cases w) simp_all

text \<open>A dash-safe string read off the result was already there in the input.\<close>

lemma prefix_replace_from_aux:
  assumes "new = CHR ''-'' # CHR ''i'' # new'" and "dash_safe w"
    and "prefix w (replace_from old new s)"
  shows "prefix w s"
  using assms
proof (induction old new s arbitrary: w rule: replace_from.induct)
  case (1 old new)
  then show ?case by simp
next
  case (2 old new c cs)
  note new = "2.prems"(1) and safe = "2.prems"(2) and pre = "2.prems"(3)
  show ?case
  proof (cases w)
    case Nil
    then show ?thesis by simp
  next
    case (Cons a w')
    show ?thesis
    proof (cases "old \<noteq> [] \<and> prefix old (c # cs)")
      case True
      define r where "r = replace_from old new (drop (length old) (c # cs))"
      have "replace_from old new (c # cs) = new @ r"
        using True unfolding r_def by simp
      then have "prefix (a # w') (CHR ''-'' # CHR ''i'' # new' @ r)"
        using pre Cons new by simp
      then have a: "a = CHR ''-''" and w': "prefix w' (CHR ''i'' # new' @ r)"
        by simp_all
      from safe Cons a obtain b w'' where "w' = b # w''" "b \<noteq> CHR ''i''"
        using dash_safe_dash by blast
      with w' show ?thesis by simp
    next
      case False
      then have "replace_from old new (c # cs) = c # replace_from old new cs"
        by auto
      with pre Cons have "a = c" and "prefix w' (replace_from old new cs)"
        by simp_all
      moreover have "dash_safe w'" using safe Cons dash_safe_tl by blast
      ultimately have "prefix w' cs" using "2.IH"(2)[OF False new] by blast
      with \<open>a = c\<close> Cons show ?thesis by simp
    qed
  qed
qed

lemma prefix_replace_from:
  "dash_safe w \<Longrightarrow> prefix w (replace_from old (CHR ''-'' # CHR ''i'' # new') s) \<Longrightarrow> prefix w s"
  using prefix_replace_from_aux[OF refl] .

lemma sublist_append_start:
  "sublist x (n @ r) \<Longrightarrow> sublist x r \<or> (\<exists>ps x1. n = ps @ x1 \<and> x1 \<noteq> [] \<and> prefix x (x1 @ r))"
proof (induction n)
  case Nil
  then show ?case by simp
next
  case (Cons a n)
  from Cons.prems have "prefix x (a # n @ r) \<or> sublist x (n @ r)"
    by (simp add: sublist_Cons_right)
  then show ?case
  proof
    assume "prefix x (a # n @ r)"
    then have "a # n = [] @ (a # n) \<and> a # n \<noteq> [] \<and> prefix x ((a # n) @ r)" by simp
    then show ?thesis by blast
  next
    assume "sublist x (n @ r)"
    from Cons.IH[OF this] show ?thesis
    proof
      assume "sublist x r" then show ?thesis ..
    next
      assume "\<exists>ps x1. n = ps @ x1 \<and> x1 \<noteq> [] \<and> prefix x (x1 @ r)"
      then obtain ps x1 where "n = ps @ x1" "x1 \<noteq> []" "prefix x (x1 @ r)" by blast
      then have "a # n = (a # ps) @ x1 \<and> x1 \<noteq> [] \<and> prefix x (x1 @ r)" by simp
      then show ?thesis by blast
    qed
  qed
qed

lemma split_after_clean:
  "d \<notin> set u \<Longrightarrow> ps @ d # x = u @ p \<Longrightarrow> \<exists>qs. p = qs @ d # x"
proof (induction u arbitrary: ps)
  case Nil
  then show ?case by auto
next
  case (Cons a u)
  show ?case
  proof (cases ps)
    case Nil
    with Cons.prems show ?thesis by simp
  next
    case (Cons b ps')
    with Cons.prems Cons.IH[of ps'] show ?thesis by simp
  qed
qed

lemma no_start_in_system_form:
  assumes "dash_safe p" and "''-isystem '' @ p = ps @ x1" and "x1 \<noteq> []"
    and "prefix (''-I'' @ p') (x1 @ r)"
  shows False
proof -
  obtain a x1' where x1: "x1 = a # x1'"
    using assms(3) by (cases x1) auto
  have "prefix (CHR ''-'' # CHR ''I'' # p') (a # (x1' @ r))"
    using assms(4) unfolding x1 by simp
  then have a: "a = CHR ''-''" and i: "prefix (CHR ''I'' # p') (x1' @ r)"
    by simp_all
  have eq: "CHR ''-'' # (''isystem '' @ p) = ps @ CHR ''-'' # x1'"
    using assms(2) unfolding x1 a by simp
  show False
  proof (cases ps)
    case Nil
    with eq have "x1' = CHR ''i'' # (''system '' @ p)" by simp
    with i have "prefix (CHR ''I'' # p') (CHR ''i'' # ((''system '' @ p) @ r))" by simp
    then show False by simp
  next
    case (Cons b ps')
    with eq have e: "ps' @ CHR ''-'' # x1' = ''isystem '' @ p" by simp
    have "CHR ''-'' \<notin> set ''isystem ''" by simp
    from split_after_clean[OF this e] obtain qs where "p = qs @ CHR ''-'' # x1'" ..
    with assms(1) have "dash_safe (CHR ''-'' # x1')" using dash_safe_suffix by blast
    then obtain c w' where "x1' = c # w'" "c \<noteq> CHR ''I''" using dash_safe_dash by blast
    with i show False by simp
  qed
qed

text \<open>Replacing one plain-include form leaves no plain-include form behind and makes none.\<close>

lemma replace_from_no_plain_aux:
  assumes "old = ''-I'' @ p" and "new = ''-isystem '' @ p"
    and "dash_safe p" and "dash_safe p'"
    and "p' = p \<or> \<not> sublist (''-I'' @ p') s"
  shows "\<not> sublist (''-I'' @ p') (replace_from old new s)"
  using assms
proof (induction old new s rule: replace_from.induct)
  case (1 old new)
  then show ?case by simp
next
  case (2 old new c cs)
  note old = "2.prems"(1) and new = "2.prems"(2) and safe = "2.prems"(3) and safe' = "2.prems"(4)
    and given = "2.prems"(5)
  have ne: "old \<noteq> []" using old by simp
  show ?case
  proof (cases "prefix old (c # cs)")
    case True
    define rest where "rest = drop (length old) (c # cs)"
    from True obtain t where t: "c # cs = old @ t" by (auto simp: prefix_def)
    then have rest: "rest = t" unfolding rest_def by simp
    have "p' = p \<or> \<not> sublist (''-I'' @ p') rest"
    proof (cases "p' = p")
      case True then show ?thesis ..
    next
      case False
      with given have "\<not> sublist (''-I'' @ p') (old @ t)" using t by simp
      then have "\<not> sublist (''-I'' @ p') t"
        by (simp add: sublist_append)
      then show ?thesis using rest by simp
    qed
    then have ih: "\<not> sublist (''-I'' @ p') (replace_from old new rest)"
      using "2.IH"(1) True ne old new safe safe' unfolding rest_def by blast
    have r: "replace_from old new (c # cs) = new @ replace_from old new rest"
      using True ne unfolding rest_def by simp
    show ?thesis
    proof
      assume "sublist (''-I'' @ p') (replace_from old new (c # cs))"
      then have "sublist (''-I'' @ p') (new @ replace_from old new rest)"
        by (simp only: r)
      from sublist_append_start[OF this] ih
      obtain ps x1 where "new = ps @ x1" "x1 \<noteq> []"
        "prefix (''-I'' @ p') (x1 @ replace_from old new rest)" by blast
      then have "''-isystem '' @ p = ps @ x1" using new by simp
      from no_start_in_system_form[OF safe this \<open>x1 \<noteq> []\<close>
          \<open>prefix (''-I'' @ p') (x1 @ replace_from old new rest)\<close>]
      show False .
    qed
  next
    case False
    have "p' = p \<or> \<not> sublist (''-I'' @ p') cs"
      using given by (auto simp: sublist_Cons_right)
    then have ih: "\<not> sublist (''-I'' @ p') (replace_from old new cs)"
      using "2.IH"(2) False old new safe safe' by blast
    have r: "replace_from old new (c # cs) = c # replace_from old new cs"
      using False by simp
    have "\<not> prefix (''-I'' @ p') (c # replace_from old new cs)"
    proof
      assume "prefix (''-I'' @ p') (c # replace_from old new cs)"
      then have "prefix (CHR ''-'' # CHR ''I'' # p') (c # replace_from old new cs)" by simp
      then have c: "c = CHR ''-''"
        and pre: "prefix (CHR ''I'' # p') (replace_from old new cs)"
        by simp_all
      have n: "new = CHR ''-'' # CHR ''i'' # (''system '' @ p)" using new by simp
      have "dash_safe (CHR ''I'' # p')" using safe' by (cases p') simp_all
      from prefix_replace_from_aux[OF n this pre]
      have "prefix (CHR ''I'' # p') cs" .
      with c have here: "prefix (''-I'' @ p') (c # cs)" by simp
      show False
      proof (cases "p' = p")
        case True with here False old show False by simp
      next
        case False
        with given have "\<not> sublist (''-I'' @ p') (c # cs)" by simp
        with here show False by (simp add: sublist_Cons_right)
      qed
    qed
    with ih show ?thesis
      by (simp only: r sublist_Cons_right) simp
  qed
qed

lemma replace_from_no_plain:
  assumes "dash_safe p" and "dash_safe p'"
    and "p' = p \<or> \<not> sublist (''-I'' @ p') s"
  shows "\<not> sublist (''-I'' @ p') (replace_from (''-I'' @ p) (''-isystem '' @ p) s)"
  using replace_from_no_plain_aux[OF refl refl assms] .

lemma header_step_no_plain:
  assumes "dash_safe (path_join root x)" and "dash_safe (path_join root y)"
    and "y = x \<or> \<not> sublist (''-I'' @ path_join root y) cmd"
  shows "\<not> sublist (''-I'' @ path_join root y) (header_step root cmd x)"
proof (cases "sublist (''-I'' @ path_join root x) cmd")
  case True
  have "path_join root y = path_join root x \<or> \<not> sublist (''-I'' @ path_join root y) cmd"
    using assms(3) by auto
  from replace_from_no_plain[OF assms(1,2) this] show ?thesis
    unfolding header_step_present[OF True] .
next
  case False
  with assms(3) show ?thesis
    unfolding header_step_absent[OF False] by auto
qed

text \<open>After the loop over the excludes no plain-include form of any of them is left.\<close>

lemma foldl_header_step_no_plain:
  assumes "\<forall>x\<in>set exs. dash_safe (path_join root x)"
    and "\<forall>y\<in>set ys. dash_safe (path_join root y) \<and> \<not> sublist (''-I'' @ path_join root y) cmd"
  shows "\<forall>y\<in>set ys \<union> set exs.
           \<not> sublist (''-I'' @ path_join root y) (foldl (header_step root) cmd exs)"
  using assms
proof (induction exs arbitrary: cmd ys)
  case Nil
  then show ?case by simp
next
  case (Cons x xs)
  have x: "dash_safe (path_join root x)" using Cons.prems(1) by simp
  have xs: "\<forall>x\<in>set xs. dash_safe (path_join root x)" using Cons.prems(1) by simp
  have "\<forall>y\<in>set (x # ys). dash_safe (path_join root y) \<and>
          \<not> sublist (''-I'' @ path_join root y) (header_step root cmd x)"
  proof
    fix y assume "y \<in> set (x # ys)"
    then consider "y = x" | "y \<in> set ys" by auto
    then show "dash_safe (path_join root y) \<and>
          \<not> sublist (''-I'' @ path_join root y) (header_step root cmd x)"
    proof cases
      case 1
      have "x = x \<or> \<not> sublist (''-I'' @ path_join root x) cmd" by blast
      from header_step_no_plain[OF x x this]
      have "\<not> sublist (''-I'' @ path_join root x) (header_step root cmd x)" .
      with x 1 show ?thesis by simp
    next
      case 2
      with Cons.prems(2) have y: "dash_safe (path_join root y)"
        and n: "\<not> sublist (''-I'' @ path_join root y) cmd" by simp_all
      from n have "y = x \<or> \<not> sublist (''-I'' @ path_join root y) cmd" ..
      from header_step_no_plain[OF x y this]
      have "\<not> sublist (''-I'' @ path_join root y) (header_step root cmd x)" .
      with y show ?thesis by simp
    qed
  qed
  from Cons.IH[OF xs this]
  have "\<forall>y\<in>set (x # ys) \<union> set xs.
      \<not> sublist (''-I'' @ path_join root y) (foldl (header_step root) (header_step root cmd x) xs)" .
  then show ?case by simp
qed

lemma foldl_header_step_id:
  "\<forall>x\<in>set exs. \<not> sublist (''-I'' @ path_join root x) cmd \<Longrightarrow>
   foldl (header_step root) cmd exs = cmd"
  by (induction exs) (simp_all add: header_step_absent)

lemma foldl_header_step_clean:
  assumes "\<forall>x\<in>set exs. dash_safe (path_join root x)"
  shows "\<forall>x\<in>set exs. \<not> sublist (''-I'' @ path_join root x) (foldl (header_step root) cmd exs)"
proof -
  have "\<forall>y\<in>set []. dash_safe (path_join root y) \<and> \<not> sublist (''-I'' @ path_join root y) cmd"
    by simp
  from foldl_header_step_no_plain[OF assms this] show ?thesis by simp
qed

lemma foldl_header_step_idem:
  assumes "\<forall>x\<in>set exs. dash_safe (path_join root x)"
  shows "foldl (header_step root) (foldl (header_step root) cmd exs) exs =
         foldl (header_step root) cmd exs"
  by (rule foldl_header_step_id) (rule foldl_header_step_clean[OF assms])

lemma lstrip_idem: "lstrip d (lstrip d s) = lstrip d s"
  by (simp add: lstrip_def)

text \<open>
  C5, as amended. When the flag \<^verbatim>\<open>isystem\<close> is set, \<^verbatim>\<open>filter_headers\<close> keeps the file and
  every other field of each entry of \<^verbatim>\<open>commands_inc\<close> and rewrites its command so: for
  every excluded path in turn, stripped of its leading separator and joined to the root,
  if the plain-include form occurs in the command as it then stands, its occurrences
  found from the left, which do not overlap, are replaced with the system-include form
  and the rest of the command is kept. The entries of \<^verbatim>\<open>commands_exc\<close> are left alone. If
  no excluded path, so joined, has a dash that is its last character or stands before an
  \<^verbatim>\<open>i\<close> or an \<^verbatim>\<open>I\<close>, then all occurrences are replaced: no plain-include form of an
  excluded path occurs in any rewritten command.
\<close>

theorem header_rewrite:
  fixes st :: "'a state"
  assumes "isystem st"
  shows "list_all2
           (\<lambda>c c'. entry_file c' = entry_file c \<and> entry.more c' = entry.more c \<and>
                    rewritten (path_root st) (map (lstrip sep) (excludes st))
                      (entry_command c) (entry_command c'))
           (commands_inc st) (commands_inc (filter_headers st)) \<and>
         commands_exc (filter_headers st) = commands_exc st \<and>
         ((\<forall>x\<in>set (excludes st). dash_safe (path_join (path_root st) (lstrip sep x))) \<longrightarrow>
          (\<forall>c'\<in>set (commands_inc (filter_headers st)). \<forall>x\<in>set (excludes st).
             \<not> str_in (''-I'' @ path_join (path_root st) (lstrip sep x)) (entry_command c')))"
proof -
  define root where "root = path_root st"
  define exs where "exs = map (lstrip sep) (excludes st)"
  have inc: "commands_inc (filter_headers st) = map (rewrite_entry root exs) (commands_inc st)"
    using assms by (simp add: filter_headers_def Let_def root_def exs_def)
  have exc: "commands_exc (filter_headers st) = commands_exc st"
    using assms by (simp add: filter_headers_def Let_def)
  have rel: "list_all2
           (\<lambda>c c'. entry_file c' = entry_file c \<and> entry.more c' = entry.more c \<and>
                    rewritten root exs (entry_command c) (entry_command c'))
           (commands_inc st) (commands_inc (filter_headers st))"
    unfolding inc
    by (simp add: list_all2_map2 list_all2_same rewrite_entry_def foldl_header_step_rewritten)
  have none: "(\<forall>x\<in>set (excludes st). dash_safe (path_join root (lstrip sep x))) \<longrightarrow>
          (\<forall>c'\<in>set (commands_inc (filter_headers st)). \<forall>x\<in>set (excludes st).
             \<not> str_in (''-I'' @ path_join root (lstrip sep x)) (entry_command c'))"
  proof (intro impI ballI)
    fix c' x
    assume safe: "\<forall>x\<in>set (excludes st). dash_safe (path_join root (lstrip sep x))"
      and c': "c' \<in> set (commands_inc (filter_headers st))" and x: "x \<in> set (excludes st)"
    from safe have safe': "\<forall>y\<in>set exs. dash_safe (path_join root y)"
      by (simp add: exs_def)
    from c' obtain c where "c' = rewrite_entry root exs c"
      unfolding inc by auto
    then have cmd: "entry_command c' = foldl (header_step root) (entry_command c) exs"
      by (simp add: rewrite_entry_def)
    from x have "lstrip sep x \<in> set exs" by (simp add: exs_def)
    with foldl_header_step_clean[OF safe', of "entry_command c"]
    have "\<not> sublist (''-I'' @ path_join root (lstrip sep x))
             (foldl (header_step root) (entry_command c) exs)"
      by blast
    then show "\<not> str_in (''-I'' @ path_join root (lstrip sep x)) (entry_command c')"
      unfolding cmd str_in_sublist .
  qed
  from rel exc none show ?thesis
    unfolding root_def exs_def by blast
qed

text \<open>C5, witness: a command with two include flags under the excluded directory.\<close>

theorem header_rewrite_witness:
  "list_all2
      (\<lambda>c c'. entry_file c' = entry_file c \<and> entry.more c' = entry.more c \<and>
               rewritten (path_root (headers_case True))
                 (map (lstrip sep) (excludes (headers_case True)))
                 (entry_command c) (entry_command c'))
      (commands_inc (headers_case True)) (commands_inc (filter_headers (headers_case True))) \<and>
   commands_exc (filter_headers (headers_case True)) = commands_exc (headers_case True) \<and>
   map entry_command (commands_inc (filter_headers (headers_case True))) =
     [''cc -isystem /root/vendor/lib -isystem /root/vendor/lib/inc -c y.cpp''] \<and>
   \<not> str_in ''-I/root/vendor/lib''
       ''cc -isystem /root/vendor/lib -isystem /root/vendor/lib/inc -c y.cpp''"
proof -
  have flag: "isystem (headers_case True)"
    by (simp add: headers_case_def loaded_def start_def)
  have safe: "\<forall>x\<in>set (excludes (headers_case True)).
      dash_safe (path_join (path_root (headers_case True)) (lstrip sep x))"
    by code_simp
  have res: "commands_inc (filter_headers (headers_case True)) =
      [\<lparr>entry_file = ''/root/src/y.cpp'',
        entry_command = ''cc -isystem /root/vendor/lib -isystem /root/vendor/lib/inc -c y.cpp''\<rparr>]"
    by code_simp
  have exs: "excludes (headers_case True) = [''/vendor/lib'']"
    by code_simp
  have pj: "path_join (path_root (headers_case True)) (lstrip sep ''/vendor/lib'') = ''/root/vendor/lib''"
    by code_simp
  note inst = header_rewrite[OF flag]
  from inst have 1: "list_all2
      (\<lambda>c c'. entry_file c' = entry_file c \<and> entry.more c' = entry.more c \<and>
               rewritten (path_root (headers_case True))
                 (map (lstrip sep) (excludes (headers_case True)))
                 (entry_command c) (entry_command c'))
      (commands_inc (headers_case True)) (commands_inc (filter_headers (headers_case True)))"
    and 2: "commands_exc (filter_headers (headers_case True)) = commands_exc (headers_case True)"
    by blast+
  from inst safe have "\<forall>c'\<in>set (commands_inc (filter_headers (headers_case True))).
       \<forall>x\<in>set (excludes (headers_case True)).
         \<not> str_in (''-I'' @ path_join (path_root (headers_case True)) (lstrip sep x)) (entry_command c')"
    by blast
  then have 4: "\<not> str_in ''-I/root/vendor/lib''
       ''cc -isystem /root/vendor/lib -isystem /root/vendor/lib/inc -c y.cpp''"
    unfolding res exs by (simp add: pj)
  have 3: "map entry_command (commands_inc (filter_headers (headers_case True))) =
     [''cc -isystem /root/vendor/lib -isystem /root/vendor/lib/inc -c y.cpp'']"
    unfolding res by simp
  from 1 2 3 4 show ?thesis by blast
qed

text \<open>
  C5 as stated fails: with the excluded directory \<^verbatim>\<open>a-\<close> under \<^verbatim>\<open>/root\<close> the plain-include
  form is \<^verbatim>\<open>-I/root/a-\<close>; it occurs twice in the command
  \<^verbatim>\<open>cc -I/root/a-I/root/a- -c y.cpp\<close>, the two occurrences sharing a dash.
  \<^verbatim>\<open>filter_headers\<close> replaces the left one and keeps the right one, which still occurs in
  the rewritten command.
\<close>

theorem header_rewrite_counterexample:
  "isystem overlap_case \<and> excludes overlap_case = [''/a-''] \<and>
   path_join (path_root overlap_case) (lstrip sep ''/a-'') = ''/root/a-'' \<and>
   map entry_command (commands_inc overlap_case) =
     [''cc '' @ ''-I/root/a-'' @ ''I/root/a- -c y.cpp''] \<and>
   map entry_command (commands_inc overlap_case) =
     [''cc -I/root/a'' @ ''-I/root/a-'' @ '' -c y.cpp''] \<and>
   map entry_command (commands_inc (filter_headers overlap_case)) =
     [''cc -isystem /root/a'' @ ''-I/root/a-'' @ '' -c y.cpp''] \<and>
   str_in ''-I/root/a-'' ''cc -isystem /root/a-I/root/a- -c y.cpp''"
  by code_simp

text \<open>
  C6, as amended. For every command string and every exclude list in which no excluded
  path, stripped and joined to the root, has a dash that is its last character or stands
  before an \<^verbatim>\<open>i\<close> or an \<^verbatim>\<open>I\<close>: applying the rewriter's replacements twice gives what
  applying them once gives, for the command string and for the whole of
  \<^verbatim>\<open>filter_headers\<close>, and after the first application no plain-include form of an
  excluded path occurs in the command.
\<close>

theorem rewrite_idempotent:
  fixes st :: "'a state"
  assumes "\<forall>x\<in>set (excludes st). dash_safe (path_join (path_root st) (lstrip sep x))"
  shows "filter_headers (filter_headers st) = filter_headers st \<and>
         foldl (header_step (path_root st))
           (foldl (header_step (path_root st)) cmd (map (lstrip sep) (excludes st)))
           (map (lstrip sep) (excludes st)) =
         foldl (header_step (path_root st)) cmd (map (lstrip sep) (excludes st)) \<and>
         (\<forall>x\<in>set (excludes st).
            \<not> str_in (''-I'' @ path_join (path_root st) (lstrip sep x))
                (foldl (header_step (path_root st)) cmd (map (lstrip sep) (excludes st))))"
proof -
  define root where "root = path_root st"
  define exs where "exs = map (lstrip sep) (excludes st)"
  have safe: "\<forall>x\<in>set exs. dash_safe (path_join root x)"
    using assms by (simp add: exs_def root_def)
  have idem: "foldl (header_step root) (foldl (header_step root) c exs) exs =
              foldl (header_step root) c exs" for c
    by (rule foldl_header_step_idem[OF safe])
  have clean: "\<forall>x\<in>set exs. \<not> sublist (''-I'' @ path_join root x) (foldl (header_step root) cmd exs)"
    by (rule foldl_header_step_clean[OF safe])
  have exs2: "map (lstrip sep) exs = exs"
    by (simp add: exs_def lstrip_idem)
  have entry: "rewrite_entry root exs (rewrite_entry root exs e) = rewrite_entry root exs e"
    for e :: "'a entry_scheme"
    by (simp add: rewrite_entry_def idem)
  have state: "filter_headers (filter_headers st) = filter_headers st"
  proof (cases "isystem st")
    case True
    have 1: "filter_headers st =
          st\<lparr>excludes := exs, commands_inc := map (rewrite_entry root exs) (commands_inc st)\<rparr>"
      using True by (simp add: filter_headers_def Let_def exs_def root_def)
    have "filter_headers (st\<lparr>excludes := exs,
              commands_inc := map (rewrite_entry root exs) (commands_inc st)\<rparr>) =
          st\<lparr>excludes := exs, commands_inc := map (rewrite_entry root exs) (commands_inc st)\<rparr>"
      using True by (simp add: filter_headers_def Let_def exs2 root_def[symmetric] entry)
    with 1 show ?thesis by simp
  next
    case False
    then show ?thesis by (simp add: filter_headers_def)
  qed
  have "\<forall>x\<in>set (excludes st).
            \<not> str_in (''-I'' @ path_join root (lstrip sep x)) (foldl (header_step root) cmd exs)"
    using clean by (simp add: exs_def str_in_sublist)
  with state idem[of cmd] show ?thesis
    unfolding root_def exs_def by blast
qed

text \<open>C6, witness: the excluded directory \<^verbatim>\<open>build_linux/clang-tidy\<close>, with a dash.\<close>

theorem rewrite_idempotent_witness:
  "filter_headers (filter_headers dash_case) = filter_headers dash_case \<and>
   foldl (header_step (path_root dash_case))
     (foldl (header_step (path_root dash_case)) ''cc -I/root/build_linux/clang-tidy -c y.cpp''
        (map (lstrip sep) (excludes dash_case)))
     (map (lstrip sep) (excludes dash_case)) =
   foldl (header_step (path_root dash_case)) ''cc -I/root/build_linux/clang-tidy -c y.cpp''
     (map (lstrip sep) (excludes dash_case)) \<and>
   foldl (header_step (path_root dash_case)) ''cc -I/root/build_linux/clang-tidy -c y.cpp''
     (map (lstrip sep) (excludes dash_case)) = ''cc -isystem /root/build_linux/clang-tidy -c y.cpp''"
proof -
  have safe: "\<forall>x\<in>set (excludes dash_case).
      dash_safe (path_join (path_root dash_case) (lstrip sep x))"
    by code_simp
  have res: "foldl (header_step (path_root dash_case)) ''cc -I/root/build_linux/clang-tidy -c y.cpp''
     (map (lstrip sep) (excludes dash_case)) = ''cc -isystem /root/build_linux/clang-tidy -c y.cpp''"
    by code_simp
  from rewrite_idempotent[OF safe, of "''cc -I/root/build_linux/clang-tidy -c y.cpp''"] res
  show ?thesis by blast
qed

text \<open>
  C6 as stated fails: with the excluded directory \<^verbatim>\<open>a-\<close> under \<^verbatim>\<open>/root\<close>, the command
  \<^verbatim>\<open>cc -I/root/a-I/root/a- -c y.cpp\<close> holds two overlapping occurrences of the
  plain-include form; the first application replaces the left one, and only then is the
  other one an occurrence that the second application replaces.
\<close>

theorem rewrite_idempotent_counterexample:
  "map entry_command (commands_inc (filter_headers overlap_case)) =
     [''cc -isystem /root/a-I/root/a- -c y.cpp''] \<and>
   map entry_command (commands_inc (filter_headers (filter_headers overlap_case))) =
     [''cc -isystem /root/a-isystem /root/a- -c y.cpp''] \<and>
   filter_headers (filter_headers overlap_case) \<noteq> filter_headers overlap_case"
  by code_simp

section \<open>Missing input files\<close>

text \<open>
  C9. If the configuration is missing, or the configuration is there and the compilation
  database is missing, the run ends at that loader with \<^verbatim>\<open>SystemExit\<close>: in fatal mode
  with status 1 and the message that starts \<^verbatim>\<open>** FATAL\<close>, in graceful mode with status 0
  and the message that starts \<^verbatim>\<open>** ERROR\<close>; the message names what is missing and its
  path. \<^verbatim>\<open>main\<close> runs in fatal mode. A file that is there is taken as it is, whatever it
  holds.
\<close>

theorem missing_input_halts:
  "(config_at fs (path_config st) = None \<longrightarrow>
      run graceful fs st =
        Inl (missing graceful ''directory exclusion configuration'' (path_config st))) \<and>
   (config_at fs (path_config st) = Some raw \<and>
    database_at fs (path_join (path_build st) ''compile_commands.json'') = None \<longrightarrow>
      run graceful fs st =
        Inl (missing graceful ''CMake-generated compilation database''
               (path_join (path_build st) ''compile_commands.json''))) \<and>
   missing False what path =
     SystemExit 1 (''** FATAL - '' @ what @ '' is missing:'' @ [newline] @ path) \<and>
   missing True what path =
     SystemExit 0 (''** ERROR - '' @ what @ '' is missing:'' @ [newline] @ path) \<and>
   main fs st = run False fs st \<and>
   (config_at fs (path_config st) = Some raw \<longrightarrow>
      read_config graceful fs st =
        Inr (st\<lparr>excludes := excludes st @ map (\<lambda>segments. sep # str_join [sep] segments) raw\<rparr>)) \<and>
   (database_at fs (path_join (path_build st) ''compile_commands.json'') = Some db \<longrightarrow>
      read_commands graceful fs st = Inr (st\<lparr>commands := db\<rparr>))"
proof -
  have 1: "config_at fs (path_config st) = None \<longrightarrow>
      run graceful fs st =
        Inl (missing graceful ''directory exclusion configuration'' (path_config st))"
    by (simp add: run_def read_config_def)
  have 2: "config_at fs (path_config st) = Some raw \<and>
    database_at fs (path_join (path_build st) ''compile_commands.json'') = None \<longrightarrow>
      run graceful fs st =
        Inl (missing graceful ''CMake-generated compilation database''
               (path_join (path_build st) ''compile_commands.json''))"
    by (simp add: run_def read_config_def read_commands_def Let_def)
  have 3: "missing False what path =
     SystemExit 1 (''** FATAL - '' @ what @ '' is missing:'' @ [newline] @ path)"
    and 4: "missing True what path =
     SystemExit 0 (''** ERROR - '' @ what @ '' is missing:'' @ [newline] @ path)"
    by (simp_all add: missing_def)
  have 5: "main fs st = run False fs st"
    by (simp add: main_def GRACEFUL_EXIT_def)
  have 6: "config_at fs (path_config st) = Some raw \<longrightarrow>
      read_config graceful fs st =
        Inr (st\<lparr>excludes := excludes st @ map (\<lambda>segments. sep # str_join [sep] segments) raw\<rparr>)"
    by (simp add: read_config_def)
  have 7: "database_at fs (path_join (path_build st) ''compile_commands.json'') = Some db \<longrightarrow>
      read_commands graceful fs st = Inr (st\<lparr>commands := db\<rparr>)"
    by (simp add: read_commands_def Let_def)
  from 1 2 3 4 5 6 7 show ?thesis by blast
qed

text \<open>C9, witness: no file at all in fatal mode, and no database in graceful mode.\<close>

theorem missing_input_halts_witness:
  "main no_files (start False) =
     Inl (SystemExit 1 (''** FATAL - directory exclusion configuration is missing:'' @ [newline] @
            ''/root/build_linux/clang-tidy/excludes_clang_tidy.json'')) \<and>
   run True (config_only [[''foo'']]) (start False) =
     Inl (SystemExit 0 (''** ERROR - CMake-generated compilation database is missing:'' @ [newline] @
            ''/root/_build/compile_commands.json''))"
proof -
  have a: "config_at no_files (path_config (start False)) = None"
    by (simp add: no_files_def)
  have p: "path_join (path_build (start False)) ''compile_commands.json'' = ''/root/_build/compile_commands.json''"
    by code_simp
  have b: "config_at (config_only [[''foo'']]) (path_config (start False)) = Some [[''foo'']] \<and>
     database_at (config_only [[''foo'']]) (path_join (path_build (start False)) ''compile_commands.json'') = None"
    unfolding p by (simp add: config_only_def start_def)
  have c: "path_config (start False) = ''/root/build_linux/clang-tidy/excludes_clang_tidy.json''"
    by (simp add: start_def)
  from missing_input_halts[where fs = no_files and st = "start False" and graceful = False
         and what = "''directory exclusion configuration''" and path = "path_config (start False)"] a c
  have "main no_files (start False) =
     Inl (SystemExit 1 (''** FATAL - directory exclusion configuration is missing:'' @ [newline] @
            ''/root/build_linux/clang-tidy/excludes_clang_tidy.json''))"
    by simp
  moreover
  from missing_input_halts[where fs = "config_only [[''foo'']]" and st = "start False"
         and raw = "[[''foo'']]" and graceful = True
         and what = "''CMake-generated compilation database''"
         and path = "path_join (path_build (start False)) ''compile_commands.json''"] b p
  have "run True (config_only [[''foo'']]) (start False) =
     Inl (SystemExit 0 (''** ERROR - CMake-generated compilation database is missing:'' @ [newline] @
            ''/root/_build/compile_commands.json''))"
    by simp
  ultimately show ?thesis by blast
qed

end
